theory Spec2Isabelle
  imports Main
begin

section \<open>XlsxUtil: a shallow embedding of src/lib/xlsx-util.js\<close>

text \<open>
  Conventions of the embedding.
  \<^item> A JavaScript string is a \<open>string\<close>: the list of its code units, each a \<open>char\<close>
    (code units 0 to 255).
  \<^item> A JavaScript number is an IEEE double. The numbers of this program are integers
    held in doubles, and the two infinities that a sum or a product overflows to: the
    type \<open>number\<close> below, with the rounding of every result to the nearest double.
    Indices and lengths of arrays, which stay far below \<open>2 ^ 53\<close>, are \<open>int\<close> and
    \<open>nat\<close>.
  \<^item> \<open>undefined\<close> is \<open>None\<close>; a \<open>TypeError\<close> thrown by a property access on
    \<open>undefined\<close> is the left injection of a sum type.
\<close>

datatype error = TypeError

subsection \<open>Numbers\<close>

text \<open>The values that the arithmetic of this program produces: an integer held in a
  double, or one of the infinities. \<open>NaN\<close> and the negative zero never arise: the program
  multiplies by 26, adds an index between \<open>-1\<close> and 26 and parses a run of digits.\<close>

datatype number = NegInf | Finite int | PosInf

text \<open>The order of these numbers, the one by which the comparison \<open>a - b\<close> of
  \<open>getSheetSize\<close> sorts them: the difference of two different finite numbers has the
  sign of the exact difference, a difference with one infinity is that infinity or its
  opposite, and the difference of an infinity with itself is \<open>NaN\<close>, which a sort
  reads as equal.\<close>

instantiation number :: linorder
begin

fun less_eq_number :: "number \<Rightarrow> number \<Rightarrow> bool" where
  "less_eq_number NegInf y = True"
| "less_eq_number (Finite a) NegInf = False"
| "less_eq_number (Finite a) (Finite b) = (a \<le> b)"
| "less_eq_number (Finite a) PosInf = True"
| "less_eq_number PosInf NegInf = False"
| "less_eq_number PosInf (Finite b) = False"
| "less_eq_number PosInf PosInf = True"

definition less_number :: "number \<Rightarrow> number \<Rightarrow> bool" where
  "less_number x y = (x \<le> y \<and> \<not> y \<le> x)"

instance
proof
  fix x y z :: number
  show "(x < y) = (x \<le> y \<and> \<not> y \<le> x)"
    by (simp add: less_number_def)
  show "x \<le> x"
    by (cases x) simp_all
  show "x \<le> y \<Longrightarrow> y \<le> z \<Longrightarrow> x \<le> z"
    by (cases x; cases y; cases z) simp_all
  show "x \<le> y \<Longrightarrow> y \<le> x \<Longrightarrow> x = y"
    by (cases x; cases y) simp_all
  show "x \<le> y \<or> y \<le> x"
    by (cases x; cases y) auto
qed

end

text \<open>The number of binary digits of a positive integer.\<close>

function bit_length :: "int \<Rightarrow> nat" where
  "bit_length a = (if a \<le> 0 then 0 else Suc (bit_length (a div 2)))"
  by pat_completeness auto
termination
  by (relation "measure nat") auto

declare bit_length.simps [simp del]

text \<open>The double nearest to an integer, the result of every arithmetic operation on its
  exact value: an integer of at most 53 binary digits is held exactly; a longer one is
  rounded to 53 significant binary digits, a tie going to the even one; from
  \<open>2 ^ 1024 - 2 ^ 970\<close> on the result is an infinity.\<close>

definition round_double :: "int \<Rightarrow> number" where
  "round_double x =
     (let a = \<bar>x\<bar>; n = bit_length a in
      if n \<le> 53 then Finite x
      else
        (let u = 2 ^ (n - 53);
             q = a div u;
             r = a mod u;
             m = (if 2 * r < u \<or> (2 * r = u \<and> even q) then q else q + 1)
         in if 2 ^ 1024 \<le> m * u then (if 0 < x then PosInf else NegInf)
            else Finite (if 0 < x then m * u else - (m * u))))"

text \<open>\<open>num *= 26\<close> and \<open>num += k\<close> for an integer \<open>k\<close>: the exact result, rounded; an
  infinity stays what it is.\<close>

fun times26 :: "number \<Rightarrow> number" where
  "times26 (Finite a) = round_double (a * 26)"
| "times26 PosInf = PosInf"
| "times26 NegInf = NegInf"

fun plus_int :: "number \<Rightarrow> int \<Rightarrow> number" where
  "plus_int (Finite a) k = round_double (a + k)"
| "plus_int PosInf k = PosInf"
| "plus_int NegInf k = NegInf"

subsection \<open>String primitives of the JavaScript runtime\<close>

text \<open>The white space that \<open>String.prototype.trim\<close> removes, among the code units 0 to 255:
  TAB, LF, VT, FF, CR, SP and NBSP.\<close>

definition is_space :: "char \<Rightarrow> bool" where
  "is_space c = ((of_char c :: nat) \<in> {9, 10, 11, 12, 13, 32, 160})"

definition trim :: "string \<Rightarrow> string" where
  "trim s = rev (dropWhile is_space (rev (dropWhile is_space s)))"

text \<open>The character class \<open>[0-9]\<close>.\<close>

definition is_digit :: "char \<Rightarrow> bool" where
  "is_digit c = (c \<in> set ''0123456789'')"

text \<open>\<open>text.split( /([0-9]+)/ )\<close>: the pieces between the maximal runs of digits, with
  the runs themselves (the capture group) in between. A text without a digit is returned
  whole, in a one-element array; the empty text gives the array of the empty text.\<close>

function split_digits :: "string \<Rightarrow> string list" where
  "split_digits s =
     (case dropWhile (\<lambda>c. \<not> is_digit c) s of
        [] \<Rightarrow> [s]
      | d # ds \<Rightarrow> takeWhile (\<lambda>c. \<not> is_digit c) s # takeWhile is_digit (d # ds)
                  # split_digits (dropWhile is_digit (d # ds)))"
  by pat_completeness auto
termination
proof (relation "measure length")
  show "wf (measure length)" by simp
next
  fix s :: string and d ds
  assume a: "dropWhile (\<lambda>c. \<not> is_digit c) s = d # ds"
  have "is_digit d"
    using a hd_dropWhile [of "\<lambda>c. \<not> is_digit c" s] by auto
  then have "length (dropWhile is_digit (d # ds)) \<le> length ds"
    by (simp add: length_dropWhile_le)
  moreover have "length (d # ds) \<le> length s"
    using a length_dropWhile_le [of "\<lambda>c. \<not> is_digit c" s] by simp
  ultimately show "(dropWhile is_digit (d # ds), s) \<in> measure length"
    by simp
qed

declare split_digits.simps [simp del]

text \<open>\<open>ref.split( ':' )\<close> for a one-character separator: one more piece than there are
  separators.\<close>

function split_on :: "char \<Rightarrow> string \<Rightarrow> string list" where
  "split_on sep s =
     (case dropWhile (\<lambda>c. c \<noteq> sep) s of
        [] \<Rightarrow> [s]
      | d # ds \<Rightarrow> takeWhile (\<lambda>c. c \<noteq> sep) s # split_on sep ds)"
  by pat_completeness auto
termination
proof (relation "measure (\<lambda>(sep, s). length s)")
  show "wf (measure (\<lambda>(sep, s). length s))" by simp
next
  fix sep :: char and s :: string and d ds
  assume a: "dropWhile (\<lambda>c. c \<noteq> sep) s = d # ds"
  have "length (d # ds) \<le> length s"
    using a length_dropWhile_le [of "\<lambda>c. c \<noteq> sep" s] by simp
  then show "((sep, ds), (sep, s)) \<in> measure (\<lambda>(sep, s). length s)"
    by simp
qed

declare split_on.simps [simp del]

text \<open>The mathematical integer that a run of digits denotes in base 10. It is an exact
  integer, not a number of the program: \<open>parseInt10\<close> below rounds it to a double.\<close>

definition decimal :: "string \<Rightarrow> int" where
  "decimal ds = foldl (\<lambda>n c. n * 10 + (int (of_char c) - 48)) 0 ds"

text \<open>\<open>parseInt( s, 10 )\<close> on a text that starts with a digit: the number for the
  mathematical integer that its leading run of digits denotes, that is, the double
  nearest to that integer (the language leaves an implementation free to read the
  digits after the 20th significant one as 0; Node rounds the exact integer).
  \<open>getPosition\<close> passes it a match of \<open>[0-9]+\<close> only, so the \<open>NaN\<close> of a text without
  a leading digit never arises there.\<close>

definition parseInt10 :: "string \<Rightarrow> number" where
  "parseInt10 s = round_double (decimal (takeWhile is_digit s))"

text \<open>\<open>Array.prototype.indexOf\<close>: the first index holding the element, \<open>-1\<close> when there
  is none.\<close>

fun indexOf_from :: "'a list \<Rightarrow> 'a \<Rightarrow> int \<Rightarrow> int" where
  "indexOf_from [] x i = - 1"
| "indexOf_from (y # ys) x i = (if y = x then i else indexOf_from ys x (i + 1))"

definition indexOf :: "'a list \<Rightarrow> 'a \<Rightarrow> int" where
  "indexOf xs x = indexOf_from xs x 0"

subsection \<open>numOfColumn\<close>

definition letters :: "string list" where
  "letters =
     ['''', ''A'', ''B'', ''C'', ''D'', ''E'', ''F''] @
     [''G'', ''H'', ''I'', ''J'', ''K'', ''L'', ''M''] @
     [''N'', ''O'', ''P'', ''Q'', ''R'', ''S'', ''T''] @
     [''U'', ''V'', ''W'', ''X'', ''Y'', ''Z'']"

text \<open>The loop of \<open>numOfColumn\<close> over \<open>col\<close>, the one-character strings of the trimmed
  text, with the running value \<open>num\<close>.\<close>

fun numOfColumn_loop :: "string list \<Rightarrow> number \<Rightarrow> number" where
  "numOfColumn_loop [] num = num"
| "numOfColumn_loop (c # col) num =
     numOfColumn_loop col (plus_int (times26 num) (indexOf letters c))"

definition numOfColumn :: "string \<Rightarrow> number" where
  "numOfColumn text = numOfColumn_loop (map (\<lambda>c. [c]) (trim text)) (Finite 0)"

subsection \<open>getPosition\<close>

record position =
  row :: number
  col :: number

definition getPosition :: "string \<Rightarrow> position" where
  "getPosition text =
     (let units = split_digits text in
      if length units < 2 then \<lparr>row = Finite 0, col = Finite 0\<rparr>
      else \<lparr>row = parseInt10 (units ! 1), col = numOfColumn (units ! 0)\<rparr>)"

subsection \<open>getCells\<close>

text \<open>The nodes that the XML layer delivers for a row and its cells. \<open>attr_r\<close> and
  \<open>attr_t\<close> are the attributes \<open>r\<close> and \<open>t\<close> of a cell, \<open>cell_dollar\<close> is its
  attribute object \<open>$\<close> (absent when the element has no attribute), \<open>cell_v\<close> its
  \<open>v\<close> children and \<open>row_c\<close> the \<open>c\<close> children of a row.\<close>

record cell_attrs =
  attr_r :: "string option"
  attr_t :: "string option"

record cell_node =
  cell_dollar :: "cell_attrs option"
  cell_v :: "string list option"

record row_node =
  row_c :: "cell_node list option"

record cell =
  cell_row :: number
  cell_col :: number
  cell_type :: string
  cell_value :: string

text \<open>The object pushed for one cell node. Reading \<open>r\<close> from an absent \<open>$\<close>, and
  splitting an absent \<open>r\<close> inside \<open>getPosition\<close>, throw.\<close>

definition make_cell :: "cell_node \<Rightarrow> error + cell" where
  "make_cell c =
     (case cell_dollar c of
        None \<Rightarrow> Inl TypeError
      | Some a \<Rightarrow>
          (case attr_r a of
             None \<Rightarrow> Inl TypeError
           | Some ref \<Rightarrow>
               (let position = getPosition ref in
                Inr \<lparr>cell_row = row position,
                     cell_col = col position,
                     cell_type = (case attr_t a of None \<Rightarrow> '''' | Some ty \<Rightarrow> if ty \<noteq> '''' then ty else ''''),
                     cell_value = (case cell_v c of None \<Rightarrow> '''' | Some vs \<Rightarrow> if 0 < length vs then vs ! 0 else '''')\<rparr>)))"

text \<open>The inner and the outer \<open>forEach\<close>, pushing onto \<open>cells\<close>; an exception ends both.\<close>

fun cells_loop :: "cell_node list \<Rightarrow> cell list \<Rightarrow> error + cell list" where
  "cells_loop [] cells = Inr cells"
| "cells_loop (c # cs) cells =
     (case make_cell c of Inl e \<Rightarrow> Inl e | Inr x \<Rightarrow> cells_loop cs (cells @ [x]))"

fun rows_loop :: "row_node list \<Rightarrow> cell list \<Rightarrow> error + cell list" where
  "rows_loop [] cells = Inr cells"
| "rows_loop (rw # rws) cells =
     (case row_c rw of
        None \<Rightarrow> Inl TypeError
      | Some cs \<Rightarrow> (case cells_loop cs cells of Inl e \<Rightarrow> Inl e | Inr cells' \<Rightarrow> rows_loop rws cells'))"

definition getCells :: "row_node list \<Rightarrow> error + cell list" where
  "getCells rows =
     rows_loop (filter (\<lambda>rw. case row_c rw of None \<Rightarrow> False | Some cs \<Rightarrow> 0 < length cs) rows) []"

subsection \<open>getSheetSize\<close>

record dimension_attrs =
  attr_ref :: "string option"

record dimension_node =
  dimension_dollar :: "dimension_attrs option"

record worksheet_node =
  dimension :: "dimension_node list option"

record sheet_node =
  worksheet :: "worksheet_node option"

text \<open>A bound is \<open>None\<close> where the code reads \<open>undefined\<close> out of an empty array.\<close>

record min_max =
  range_min :: "number option"
  range_max :: "number option"

record sheet_size =
  size_row :: min_max
  size_col :: min_max

text \<open>\<open>sheet && sheet.worksheet && sheet.worksheet.dimension\<close>: the array of dimension
  nodes when all three are there.\<close>

definition sheet_dimension :: "sheet_node option \<Rightarrow> dimension_node list option" where
  "sheet_dimension sheet =
     (case sheet of
        None \<Rightarrow> None
      | Some s \<Rightarrow> (case worksheet s of None \<Rightarrow> None | Some w \<Rightarrow> dimension w))"

text \<open>Reading an array at an index: \<open>undefined\<close> outside of it.\<close>

definition at_index :: "'a list \<Rightarrow> int \<Rightarrow> 'a option" where
  "at_index xs i = (if 0 \<le> i \<and> i < int (length xs) then Some (xs ! nat i) else None)"

text \<open>The second half of \<open>getSheetSize\<close>: the cells' rows and columns, each sorted with
  the comparison \<open>a - b\<close>, and their first and last elements.\<close>

definition scan_cells :: "cell list \<Rightarrow> sheet_size" where
  "scan_cells cells =
     (let rows = sort (map cell_row cells);
          cols = sort (map cell_col cells)
      in \<lparr>size_row = \<lparr>range_min = at_index rows 0, range_max = at_index rows (int (length rows) - 1)\<rparr>,
          size_col = \<lparr>range_min = at_index cols 0, range_max = at_index cols (int (length cols) - 1)\<rparr>\<rparr>)"

definition getSheetSize :: "sheet_node option \<Rightarrow> cell list \<Rightarrow> error + sheet_size" where
  "getSheetSize sheet cells =
     (case sheet_dimension sheet of
        None \<Rightarrow> Inr (scan_cells cells)
      | Some dim \<Rightarrow>
          if 0 \<le> length dim then
            (case dim of
               [] \<Rightarrow> Inl TypeError
             | d # _ \<Rightarrow>
                 (case dimension_dollar d of
                    None \<Rightarrow> Inl TypeError
                  | Some a \<Rightarrow>
                      (case attr_ref a of
                         None \<Rightarrow> Inl TypeError
                       | Some ref \<Rightarrow>
                           (let range = split_on CHR '':'' ref in
                            if length range = 2 then
                              (let pmin = getPosition (range ! 0);
                                   pmax = getPosition (range ! 1)
                               in Inr \<lparr>size_row = \<lparr>range_min = Some (row pmin), range_max = Some (row pmax)\<rparr>,
                                       size_col = \<lparr>range_min = Some (col pmin), range_max = Some (col pmax)\<rparr>\<rparr>)
                            else Inr (scan_cells cells)))))
          else Inr (scan_cells cells))"

subsection \<open>parseT and parseR\<close>

text \<open>An element of a \<open>t\<close> array: a string, an object (with the string held by its
  underscore property, \<open>None\<close> when the property is absent or not a string), or a
  value of another type.\<close>

datatype t_node = TString string | TObject "string option" | TOther

record r_node =
  run_t :: "t_node list option"

fun parseT_loop :: "t_node list \<Rightarrow> string \<Rightarrow> string" where
  "parseT_loop [] val = val"
| "parseT_loop (TString s # ts) val = parseT_loop ts (val @ s)"
| "parseT_loop (TObject u # ts) val =
     parseT_loop ts (case u of None \<Rightarrow> val | Some s \<Rightarrow> if s \<noteq> '''' then val @ s else val)"
| "parseT_loop (TOther # ts) val = parseT_loop ts val"

definition parseT :: "t_node list \<Rightarrow> string" where
  "parseT ts = parseT_loop ts ''''"

fun parseR_loop :: "r_node list \<Rightarrow> string \<Rightarrow> string" where
  "parseR_loop [] val = val"
| "parseR_loop (obj # rs) val =
     parseR_loop rs (case run_t obj of None \<Rightarrow> val | Some ts \<Rightarrow> val @ parseT ts)"

definition parseR :: "r_node list \<Rightarrow> string" where
  "parseR rs = parseR_loop rs ''''"

subsection \<open>createEmptyCells\<close>

text \<open>Arrays are objects with an identity, so the rows live in a store: the array at
  address \<open>a\<close> is the \<open>a\<close>-th element of the heap, and allocating appends a new one.
  The outer array is the list of the addresses of its rows.\<close>

type_synonym addr = nat
type_synonym heap = "string list list"

definition new_array :: "heap \<Rightarrow> addr \<times> heap" where
  "new_array h = (length h, h @ [[]])"

definition push :: "addr \<Rightarrow> string \<Rightarrow> heap \<Rightarrow> heap" where
  "push a v h = h[a := h ! a @ [v]]"


function fill_row :: "nat \<Rightarrow> nat \<Rightarrow> addr \<Rightarrow> heap \<Rightarrow> heap" where
  "fill_row j cols rw h = (if j < cols then fill_row (j + 1) cols rw (push rw '''' h) else h)"
  by pat_completeness auto
termination
  by (relation "measure (\<lambda>(j, cols, rw, h). cols - j)") auto

function create_rows :: "nat \<Rightarrow> nat \<Rightarrow> nat \<Rightarrow> addr list \<Rightarrow> heap \<Rightarrow> addr list \<times> heap" where
  "create_rows i rows cols arr h =
     (if i < rows then
        (let (rw, h1) = new_array h;
             h2 = fill_row 0 cols rw h1
         in create_rows (i + 1) rows cols (arr @ [rw]) h2)
      else (arr, h))"
  by pat_completeness auto
termination
  by (relation "measure (\<lambda>(i, rows, cols, arr, h). rows - i)") auto

declare fill_row.simps [simp del] create_rows.simps [simp del]


subsection \<open>Notions used to state the properties\<close>

text \<open>The letters A to Z.\<close>

definition is_upper :: "char \<Rightarrow> bool" where
  "is_upper c = (c \<in> set ''ABCDEFGHIJKLMNOPQRSTUVWXYZ'')"

text \<open>The value that \<open>letters.indexOf\<close> gives to a one-character string, in closed
  form: the position in the alphabet for a letter A to Z (code unit minus 64), and the
  \<open>-1\<close> of an element that is not found for any other character.\<close>

definition digit_value :: "char \<Rightarrow> int" where
  "digit_value c = (if is_upper c then int (of_char c) - 64 else - 1)"

text \<open>The specification's reading of the same: digit values A=1 to Z=26, and 0 for any
  other character.\<close>

definition digit_value_spec :: "char \<Rightarrow> int" where
  "digit_value_spec c = (if is_upper c then int (of_char c) - 64 else 0)"

definition numOfColumn_spec :: "string \<Rightarrow> int" where
  "numOfColumn_spec text = foldl (\<lambda>n c. n * 26 + digit_value_spec c) 0 (trim text)"

text \<open>The base-26 value of a text of letters, with digit values A=1 to Z=26, accumulated
  from left to right.\<close>

definition base26 :: "string \<Rightarrow> int" where
  "base26 s = foldl (\<lambda>n c. n * 26 + (int (of_char c) - 64)) 0 s"

text \<open>The natural ordering of column texts: a shorter text comes first, and texts of the
  same length are compared letter by letter from the left.\<close>

fun lex_less :: "string \<Rightarrow> string \<Rightarrow> bool" where
  "lex_less (x # xs) (y # ys) = ((of_char x :: nat) < of_char y \<or> (x = y \<and> lex_less xs ys))"
| "lex_less xs ys = False"

definition base26_less :: "string \<Rightarrow> string \<Rightarrow> bool" where
  "base26_less s t = (length s < length t \<or> (length s = length t \<and> lex_less s t))"

text \<open>A cell node carries a reference: it has an attribute object with an \<open>r\<close>.\<close>

definition has_ref :: "cell_node \<Rightarrow> bool" where
  "has_ref c = (case cell_dollar c of None \<Rightarrow> False | Some a \<Rightarrow> attr_r a \<noteq> None)"

text \<open>The cell nodes of a row: none when the row has no cell sequence.\<close>

definition row_cells :: "row_node \<Rightarrow> cell_node list" where
  "row_cells rw = (case row_c rw of None \<Rightarrow> [] | Some cs \<Rightarrow> cs)"

section \<open>Properties\<close>

subsection \<open>Column texts\<close>

lemma indexOf_letters_upper: "is_upper c \<Longrightarrow> indexOf letters [c] = int (of_char c) - 64"
  unfolding is_upper_def
  apply (simp only: list.set insert_iff empty_iff)
  apply (elim disjE)
  apply (simp_all add: letters_def indexOf_def)
  done

lemma indexOf_from_absent: "x \<notin> set xs \<Longrightarrow> indexOf_from xs x i = - 1"
  by (induction xs arbitrary: i) auto

lemma indexOf_letters_other: "\<not> is_upper c \<Longrightarrow> indexOf letters [c] = - 1"
  unfolding indexOf_def
  by (rule indexOf_from_absent) (simp add: is_upper_def letters_def)

lemma indexOf_letters: "indexOf letters [c] = digit_value c"
  by (simp add: digit_value_def indexOf_letters_upper indexOf_letters_other)

lemma bit_length_le: "a < 2 ^ k \<Longrightarrow> bit_length a \<le> k"
proof (induction k arbitrary: a)
  case 0
  then show ?case by (simp add: bit_length.simps [of a])
next
  case (Suc k)
  show ?case
  proof (cases "a \<le> 0")
    case True
    then show ?thesis by (simp add: bit_length.simps [of a])
  next
    case False
    have "a div 2 < 2 ^ k" using Suc.prems by simp
    then have "bit_length (a div 2) \<le> k" by (rule Suc.IH)
    then show ?thesis using False by (simp add: bit_length.simps [of a])
  qed
qed

lemma round_double_exact: "\<bar>x\<bar> < 2 ^ 53 \<Longrightarrow> round_double x = Finite x"
  by (simp add: round_double_def Let_def bit_length_le)

text \<open>Above \<open>2 ^ 53\<close> an odd integer is not a double: it goes to the nearest one, and a
  tie goes to the double with the even significand.\<close>

lemma round_double_ties:
  "round_double 9007199254740993 = Finite 9007199254740992
   \<and> round_double 9007199254740995 = Finite 9007199254740996
   \<and> round_double (- 9007199254740995) = Finite (- 9007199254740996)
   \<and> round_double 99246114928149462 = Finite 99246114928149456"
  by (simp add: round_double_def bit_length.simps Let_def)

text \<open>From \<open>2 ^ 1024\<close> on every integer overflows to an infinity.\<close>

lemma bit_length_gt: "2 ^ k \<le> a \<Longrightarrow> k < bit_length a"
proof (induction k arbitrary: a)
  case 0
  then show ?case by (simp add: bit_length.simps [of a])
next
  case (Suc k)
  have "2 ^ k \<le> a div 2" using Suc.prems by simp
  then have "k < bit_length (a div 2)" by (rule Suc.IH)
  moreover have "(0::int) < 2 ^ Suc k" by simp
  then have "0 < a" using Suc.prems by linarith
  ultimately show ?case by (simp add: bit_length.simps [of a])
qed

lemma bit_length_lower: "0 < a \<Longrightarrow> 2 ^ (bit_length a - 1) \<le> a"
proof (induction a rule: bit_length.induct)
  case (1 a)
  show ?case
  proof (cases "a div 2 \<le> 0")
    case True
    then have "bit_length (a div 2) = 0" by (simp add: bit_length.simps [of "a div 2"])
    then show ?thesis using "1.prems" by (simp add: bit_length.simps [of a])
  next
    case False
    then have p: "0 < a div 2" by simp
    have ih: "2 ^ (bit_length (a div 2) - 1) \<le> a div 2"
      using "1.IH" "1.prems" p by simp
    have "0 < bit_length (a div 2)" using p by (simp add: bit_length.simps [of "a div 2"])
    then have "(2::int) ^ bit_length (a div 2) = 2 * 2 ^ (bit_length (a div 2) - 1)"
      by (cases "bit_length (a div 2)") simp_all
    then have "(2::int) ^ bit_length (a div 2) \<le> a" using ih by linarith
    then show ?thesis using "1.prems" by (simp add: bit_length.simps [of a])
  qed
qed

lemma round_double_overflow:
  assumes "2 ^ 1024 \<le> \<bar>x\<bar>"
  shows "round_double x = (if 0 < x then PosInf else NegInf)"
proof -
  define a where "a = \<bar>x\<bar>"
  define n where "n = bit_length a"
  define u :: int where "u = 2 ^ (n - 53)"
  define q where "q = a div u"
  define m where "m = (if 2 * (a mod u) < u \<or> (2 * (a mod u) = u \<and> even q) then q else q + 1)"
  have n: "1024 < n" using assms bit_length_gt [of 1024 a] by (simp add: a_def n_def)
  have "(0::int) < 2 ^ 1024" by simp
  then have pos: "0 < a" using assms unfolding a_def by linarith
  have low: "2 ^ (n - 1) \<le> a" using bit_length_lower [OF pos] by (simp add: n_def)
  have upos: "0 < u" by (simp add: u_def)
  have e: "(2::int) ^ (n - 1) = 2 ^ 52 * u"
  proof -
    have "n - 1 = 52 + (n - 53)" using n by simp
    then show ?thesis unfolding u_def by (metis power_add)
  qed
  have "2 ^ 52 * u div u \<le> a div u"
    using low unfolding e by (rule zdiv_mono1) (rule upos)
  then have q: "2 ^ 52 \<le> q" using upos by (simp add: q_def)
  have "q \<le> m" by (simp add: m_def)
  then have "2 ^ 52 * u \<le> m * u"
    using q upos by (intro mult_right_mono) auto
  moreover have "(2::int) ^ 1024 \<le> 2 ^ (n - 1)"
    using n by (intro power_increasing) auto
  ultimately have big: "2 ^ 1024 \<le> m * u" using e by linarith
  have "\<not> n \<le> 53" using n by simp
  then show ?thesis
    using big unfolding round_double_def Let_def a_def [symmetric] n_def [symmetric]
      u_def [symmetric] q_def [symmetric] m_def [symmetric]
    by simp
qed

lemma Finite_less: "(Finite a < Finite b) = (a < b)"
  by (auto simp: less_number_def)

lemma numOfColumn_loop_foldl:
  "numOfColumn_loop (map (\<lambda>c. [c]) s) num = foldl (\<lambda>n c. plus_int (times26 n) (digit_value c)) num s"
  by (induction s arbitrary: num) (simp_all add: indexOf_letters)

lemma numOfColumn_digit_value:
  "numOfColumn text = foldl (\<lambda>n c. plus_int (times26 n) (digit_value c)) (Finite 0) (trim text)"
  by (simp add: numOfColumn_def numOfColumn_loop_foldl)

lemma upper_range: "is_upper c \<Longrightarrow> 65 \<le> (of_char c :: nat) \<and> (of_char c :: nat) \<le> 90"
  unfolding is_upper_def
  apply (simp only: list.set insert_iff empty_iff)
  apply (elim disjE)
  apply simp_all
  done

lemma upper_not_space: "is_upper c \<Longrightarrow> \<not> is_space c"
  using upper_range [of c] by (auto simp: is_space_def)

lemma dropWhile_none: "\<forall>c\<in>set s. \<not> P c \<Longrightarrow> dropWhile P s = s"
  by (cases s) simp_all

lemma trim_id: "\<forall>c\<in>set s. \<not> is_space c \<Longrightarrow> trim s = s"
  by (simp add: trim_def dropWhile_none)

lemma base26_acc:
  "foldl (\<lambda>n c. n * 26 + (int (of_char c) - 64)) a s = a * 26 ^ length s + base26 s"
proof (induction s arbitrary: a)
  case Nil
  show ?case by (simp add: base26_def)
next
  case (Cons x xs)
  have "foldl (\<lambda>n c. n * 26 + (int (of_char c) - 64)) a (x # xs)
        = (a * 26 + (int (of_char x) - 64)) * 26 ^ length xs + base26 xs"
    using Cons.IH [of "a * 26 + (int (of_char x) - 64)"] by simp
  moreover have "base26 (x # xs) = (int (of_char x) - 64) * 26 ^ length xs + base26 xs"
    using Cons.IH [of "int (of_char x) - 64"] by (simp add: base26_def)
  ultimately show ?case by (simp add: algebra_simps)
qed

lemma base26_Cons: "base26 (x # xs) = (int (of_char x) - 64) * 26 ^ length xs + base26 xs"
  using base26_acc [of "int (of_char x) - 64" xs] by (simp add: base26_def)

lemma base26_bounds:
  "\<forall>c\<in>set s. is_upper c \<Longrightarrow>
   26 ^ length s - 1 \<le> 25 * base26 s \<and> 25 * base26 s \<le> 26 * (26 ^ length s - 1)"
proof (induction s)
  case Nil
  show ?case by (simp add: base26_def)
next
  case (Cons x xs)
  define p :: int where "p = 26 ^ length xs"
  define dp where "dp = (int (of_char x) - 64) * p"
  have r: "1 \<le> int (of_char x) - 64" "int (of_char x) - 64 \<le> 26"
    using upper_range [of x] Cons.prems by auto
  have pos: "0 \<le> p" by (simp add: p_def)
  have ih: "p - 1 \<le> 25 * base26 xs" "25 * base26 xs \<le> 26 * p - 26"
    using Cons by (auto simp: p_def)
  have lo: "1 * p \<le> dp"
    unfolding dp_def using r(1) pos by (rule mult_right_mono)
  have hi: "dp \<le> 26 * p"
    unfolding dp_def using r(2) pos by (rule mult_right_mono)
  have v: "base26 (x # xs) = dp + base26 xs"
    by (simp add: base26_Cons dp_def p_def)
  have q: "(26::int) ^ length (x # xs) = 26 * p"
    by (simp add: p_def)
  have "26 * p - 1 \<le> 25 * dp + 25 * base26 xs" "25 * dp + 25 * base26 xs \<le> 676 * p - 26"
    using lo hi ih by linarith+
  then show ?case
    unfolding v q by (simp add: algebra_simps)
qed

lemma base26_shorter:
  assumes "\<forall>c\<in>set s. is_upper c" "\<forall>c\<in>set t. is_upper c" "length s < length t"
  shows "base26 s < base26 t"
proof -
  have "Suc (length s) \<le> length t" using assms(3) by simp
  then have "(26::int) ^ Suc (length s) \<le> 26 ^ length t"
    by (intro power_increasing) auto
  then have "26 * (26 ^ length s - 1) < (26::int) ^ length t - 1" by simp
  then show ?thesis
    using base26_bounds [OF assms(1)] base26_bounds [OF assms(2)] by linarith
qed

lemma base26_lex:
  "\<forall>c\<in>set s. is_upper c \<Longrightarrow> \<forall>c\<in>set t. is_upper c \<Longrightarrow> length s = length t \<Longrightarrow>
   lex_less s t \<Longrightarrow> base26 s < base26 t"
proof (induction s t rule: lex_less.induct)
  case (1 x xs y ys)
  define p :: int where "p = 26 ^ length ys"
  have len: "length xs = length ys" using "1.prems" by simp
  have pos: "0 \<le> p" by (simp add: p_def)
  have bx: "25 * base26 xs \<le> 26 * p - 26"
    using base26_bounds [of xs] "1.prems" len by (simp add: p_def)
  have lb: "p - 1 \<le> 25 * base26 ys"
    using base26_bounds [of ys] "1.prems" by (simp add: p_def)
  have vx: "base26 (x # xs) = (int (of_char x) - 64) * p + base26 xs"
    by (simp add: base26_Cons p_def len)
  have vy: "base26 (y # ys) = (int (of_char y) - 64) * p + base26 ys"
    by (simp add: base26_Cons p_def)
  show ?case
  proof (cases "(of_char x :: nat) < of_char y")
    case True
    then have "int (of_char x) - 64 + 1 \<le> int (of_char y) - 64" by simp
    then have "(int (of_char x) - 64 + 1) * p \<le> (int (of_char y) - 64) * p"
      using pos by (rule mult_right_mono)
    then have "(int (of_char x) - 64) * p + p \<le> (int (of_char y) - 64) * p"
      by (simp add: algebra_simps)
    moreover define a where "a = (int (of_char x) - 64) * p"
    moreover define b where "b = (int (of_char y) - 64) * p"
    ultimately have "a + p \<le> b" by simp
    then have "a + base26 xs < b + base26 ys"
      using bx lb by linarith
    then show ?thesis
      unfolding vx vy a_def b_def .
  next
    case False
    then have e: "x = y" and l: "lex_less xs ys" using "1.prems" by auto
    have "base26 xs < base26 ys" using "1.IH" [OF _ _ len l] "1.prems" by simp
    then show ?thesis unfolding vx vy using e by simp
  qed
qed simp_all

lemma base26_nonneg: "\<forall>c\<in>set s. is_upper c \<Longrightarrow> 0 \<le> base26 s"
proof -
  assume "\<forall>c\<in>set s. is_upper c"
  then have "26 ^ length s - 1 \<le> 25 * base26 s" using base26_bounds [of s] by simp
  moreover have "(1::int) \<le> 26 ^ length s" by simp
  ultimately show ?thesis by linarith
qed

lemma foldl_exact:
  "0 \<le> a \<Longrightarrow> \<forall>c\<in>set s. is_upper c \<Longrightarrow> a * 26 ^ length s + base26 s < 2 ^ 53 \<Longrightarrow>
   foldl (\<lambda>n c. plus_int (times26 n) (digit_value c)) (Finite a) s
     = Finite (a * 26 ^ length s + base26 s)"
proof (induction s arbitrary: a)
  case Nil
  show ?case by (simp add: base26_def)
next
  case (Cons x xs)
  define d where "d = int (of_char x) - 64"
  define p :: int where "p = 26 ^ length xs"
  have dv: "digit_value x = d" using Cons.prems(2) by (simp add: digit_value_def d_def)
  have r: "1 \<le> d" "d \<le> 26"
    using upper_range [of x] Cons.prems(2) by (auto simp: d_def)
  have total: "a * 26 ^ length (x # xs) + base26 (x # xs) = (a * 26 + d) * p + base26 xs"
    by (simp add: base26_Cons d_def p_def algebra_simps)
  have b: "0 \<le> base26 xs" using base26_nonneg [of xs] Cons.prems(2) by simp
  have a': "0 \<le> a * 26 + d" using Cons.prems(1) r by simp
  have "1 \<le> p" by (simp add: p_def)
  then have "(a * 26 + d) * 1 \<le> (a * 26 + d) * p"
    using a' by (intro mult_left_mono) auto
  then have le: "a * 26 + d \<le> (a * 26 + d) * p + base26 xs" using b by simp
  have lt: "(a * 26 + d) * p + base26 xs < 2 ^ 53"
    using Cons.prems(3) unfolding total .
  have s1: "a * 26 + d < 2 ^ 53" using le lt by linarith
  have s0: "a * 26 < 2 ^ 53" using s1 r by linarith
  have t: "round_double (a * 26) = Finite (a * 26)"
    using s0 Cons.prems(1) by (simp add: round_double_exact)
  have u: "round_double (a * 26 + d) = Finite (a * 26 + d)"
    using s1 a' by (simp add: round_double_exact)
  have "foldl (\<lambda>n c. plus_int (times26 n) (digit_value c)) (Finite a) (x # xs)
      = foldl (\<lambda>n c. plus_int (times26 n) (digit_value c)) (Finite (a * 26 + d)) xs"
    by (simp add: t u dv)
  also have "\<dots> = Finite ((a * 26 + d) * 26 ^ length xs + base26 xs)"
    using Cons.IH [of "a * 26 + d"] a' Cons.prems(2) lt by (simp add: p_def)
  finally show ?case unfolding total p_def .
qed

lemma numOfColumn_upper:
  "\<forall>c\<in>set s. is_upper c \<Longrightarrow> base26 s < 2 ^ 53 \<Longrightarrow> numOfColumn s = Finite (base26 s)"
  using foldl_exact [of 0 s]
  by (simp add: numOfColumn_digit_value trim_id upper_not_space)

lemma base26_short:
  assumes "\<forall>c\<in>set s. is_upper c" "length s \<le> 11"
  shows "base26 s < 2 ^ 53"
proof -
  have "(26::int) ^ length s \<le> 26 ^ 11"
    using assms(2) by (intro power_increasing) auto
  then have "(26::int) ^ length s \<le> 3670344486987776" by simp
  moreover have "25 * base26 s \<le> 26 * 26 ^ length s - 26"
    using base26_bounds [OF assms(1)] by (simp add: algebra_simps)
  ultimately have "25 * base26 s \<le> 95428956661682150" by linarith
  then show ?thesis by simp
qed

lemma base26_less_value:
  "\<forall>c\<in>set s. is_upper c \<Longrightarrow> \<forall>c\<in>set t. is_upper c \<Longrightarrow> base26_less s t \<Longrightarrow> base26 s < base26 t"
  using base26_shorter [of s t] base26_lex [of s t] by (auto simp: base26_less_def)

lemma numOfColumn_mono:
  assumes "\<forall>c\<in>set s. is_upper c" "\<forall>c\<in>set t. is_upper c" "base26_less s t" "base26 t < 2 ^ 53"
  shows "numOfColumn s < numOfColumn t"
proof -
  have l: "base26 s < base26 t" using assms(1-3) by (rule base26_less_value)
  then have "base26 s < 2 ^ 53" using assms(4) by linarith
  then show ?thesis
    using l assms by (simp add: numOfColumn_upper Finite_less)
qed

text \<open>
  C1. The claim gives every character outside A to Z the digit value 0. The code gives
  it \<open>-1\<close>, the result of \<open>indexOf\<close> for an element that it does not find, and goes on
  accumulating: the text \<open>Aa\<close> gives 25, where the digit value 0 of the claim gives 26.
  The documentation of \<open>numOfColumn\<close> promises \<open>-1\<close> for a text that is not a column;
  the code returns it for a text of one such character only (\<open>a\<close> gives \<open>-1\<close>,
  \<open>aa\<close> gives \<open>-27\<close>).
\<close>

theorem numOfColumn_invalid_letter:
  "numOfColumn ''Aa'' = Finite 25 \<and> numOfColumn_spec ''Aa'' = 26
   \<and> numOfColumn ''a'' = Finite (- 1) \<and> numOfColumn ''aa'' = Finite (- 27)"
  by (simp add: numOfColumn_digit_value numOfColumn_spec_def trim_def is_space_def
      digit_value_def digit_value_spec_def is_upper_def round_double_exact)

text \<open>
  C4 (as amended). On a text of letters A to Z whose base-26 value (digit values A=1 to
  Z=26, accumulated from left to right) is below \<open>2 ^ 53\<close>, as it is for every such text of
  at most 11 letters, \<open>numOfColumn\<close> is that value; the empty text gives 0; A, Z, AA, AZ
  and BA give 1, 26, 27, 52 and 53; and on these texts \<open>numOfColumn\<close> is strictly
  increasing in the natural ordering (shorter first, then letter by letter).
\<close>

theorem numOfColumn_base26:
  "(\<forall>s. (\<forall>c\<in>set s. is_upper c) \<and> base26 s < 2 ^ 53 \<longrightarrow> numOfColumn s = Finite (base26 s))
   \<and> (\<forall>s. (\<forall>c\<in>set s. is_upper c) \<and> length s \<le> 11 \<longrightarrow> base26 s < 2 ^ 53)
   \<and> numOfColumn '''' = Finite 0
   \<and> numOfColumn ''A'' = Finite 1 \<and> numOfColumn ''Z'' = Finite 26 \<and> numOfColumn ''AA'' = Finite 27
   \<and> numOfColumn ''AZ'' = Finite 52 \<and> numOfColumn ''BA'' = Finite 53
   \<and> (\<forall>s t. (\<forall>c\<in>set s. is_upper c) \<and> (\<forall>c\<in>set t. is_upper c) \<and> base26_less s t
            \<and> base26 t < 2 ^ 53
          \<longrightarrow> numOfColumn s < numOfColumn t)"
proof -
  have ex: "numOfColumn '''' = Finite 0 \<and> numOfColumn ''A'' = Finite 1 \<and> numOfColumn ''Z'' = Finite 26
      \<and> numOfColumn ''AA'' = Finite 27 \<and> numOfColumn ''AZ'' = Finite 52 \<and> numOfColumn ''BA'' = Finite 53"
    by (simp add: numOfColumn_digit_value trim_def is_space_def digit_value_def is_upper_def
        round_double_exact)
  show ?thesis
    using ex numOfColumn_upper base26_short numOfColumn_mono by blast
qed

theorem numOfColumn_base26_witness:
  "list_all is_upper ''AZ'' \<and> list_all is_upper ''BA'' \<and> base26_less ''AZ'' ''BA''
   \<and> length ''BA'' \<le> 11 \<and> base26 ''BA'' < 2 ^ 53
   \<and> numOfColumn ''AZ'' = Finite (base26 ''AZ'') \<and> base26 ''AZ'' = 52
   \<and> numOfColumn ''AZ'' < numOfColumn ''BA''"
proof -
  have u: "\<forall>c\<in>set ''AZ''. is_upper c" "\<forall>c\<in>set ''BA''. is_upper c"
    by (simp_all add: is_upper_def)
  have l: "base26_less ''AZ'' ''BA''"
    by (simp add: base26_less_def)
  have n: "length ''BA'' \<le> 11" "length ''AZ'' \<le> 11"
    by simp_all
  have v: "base26 ''AZ'' = 52"
    by (simp add: base26_def)
  have b: "base26 ''BA'' < 2 ^ 53" "base26 ''AZ'' < 2 ^ 53"
    using numOfColumn_base26 u n by blast+
  have "numOfColumn ''AZ'' = Finite (base26 ''AZ'')"
    using numOfColumn_base26 u(1) b(2) by blast
  moreover have "numOfColumn ''AZ'' < numOfColumn ''BA''"
    using numOfColumn_base26 u l b(1) by blast
  ultimately show ?thesis
    using u l n v b by (simp add: list_all_iff)
qed

text \<open>From 12 letters on the running value is rounded to a double. The two texts of
  eleven Z followed by A and by B give the same number, so \<open>numOfColumn\<close> is not strictly
  increasing there; twelve Z give 99246114928149472, which is neither their base-26 value
  99246114928149462 nor below the 99246114928149456 that thirteen A give.\<close>

theorem numOfColumn_rounds_counterexample:
  "list_all is_upper ''ZZZZZZZZZZZA'' \<and> list_all is_upper ''ZZZZZZZZZZZB''
   \<and> base26_less ''ZZZZZZZZZZZA'' ''ZZZZZZZZZZZB''
   \<and> numOfColumn ''ZZZZZZZZZZZA'' = Finite 99246114928149440
   \<and> numOfColumn ''ZZZZZZZZZZZB'' = Finite 99246114928149440
   \<and> \<not> numOfColumn ''ZZZZZZZZZZZA'' < numOfColumn ''ZZZZZZZZZZZB''
   \<and> base26 ''ZZZZZZZZZZZZ'' = 99246114928149462
   \<and> numOfColumn ''ZZZZZZZZZZZZ'' = Finite 99246114928149472
   \<and> numOfColumn ''AAAAAAAAAAAAA'' = Finite 99246114928149456"
proof -
  have v: "numOfColumn ''ZZZZZZZZZZZA'' = Finite 99246114928149440"
      "numOfColumn ''ZZZZZZZZZZZB'' = Finite 99246114928149440"
      "numOfColumn ''ZZZZZZZZZZZZ'' = Finite 99246114928149472"
      "numOfColumn ''AAAAAAAAAAAAA'' = Finite 99246114928149456"
    by (simp_all add: numOfColumn_digit_value trim_def is_space_def digit_value_def is_upper_def
        round_double_def bit_length.simps Let_def)
  have b: "base26 ''ZZZZZZZZZZZZ'' = 99246114928149462"
    by (simp add: base26_def)
  have u: "list_all is_upper ''ZZZZZZZZZZZA''" "list_all is_upper ''ZZZZZZZZZZZB''"
    by (simp_all add: is_upper_def)
  have l: "base26_less ''ZZZZZZZZZZZA'' ''ZZZZZZZZZZZB''"
    by (simp add: base26_less_def)
  show ?thesis
    using v b u l by simp
qed

subsection \<open>Cell references\<close>

lemma split_digits_none: "\<forall>c\<in>set s. \<not> is_digit c \<Longrightarrow> split_digits s = [s]"
proof -
  assume "\<forall>c\<in>set s. \<not> is_digit c"
  then have e: "dropWhile (\<lambda>c. \<not> is_digit c) s = []" by simp
  show ?thesis by (simp add: split_digits.simps [of s] e)
qed

lemma split_digits_first:
  assumes l: "\<forall>c\<in>set l. \<not> is_digit c"
    and d: "d \<noteq> []" "\<forall>c\<in>set d. is_digit c"
    and r: "rest = [] \<or> \<not> is_digit (hd rest)"
  shows "split_digits (l @ d @ rest) = l # d # split_digits rest"
proof -
  obtain x xs where dx: "d = x # xs" using d(1) by (cases d) auto
  have x: "is_digit x" using d(2) dx by simp
  have tr: "takeWhile is_digit rest = []" and dr: "dropWhile is_digit rest = rest"
    using r by (cases rest; simp)+
  have d1: "dropWhile (\<lambda>c. \<not> is_digit c) (l @ d @ rest) = x # (xs @ rest)"
    using l x by (simp add: dx)
  have t1: "takeWhile (\<lambda>c. \<not> is_digit c) (l @ d @ rest) = l"
    using l x by (simp add: dx)
  have t2: "takeWhile is_digit (x # (xs @ rest)) = d"
    using d(2) tr takeWhile_append2 [of d is_digit rest] by (simp add: dx)
  have d2: "dropWhile is_digit (x # (xs @ rest)) = rest"
    using d(2) dr dropWhile_append2 [of d is_digit rest] by (simp add: dx)
  show ?thesis
    by (simp add: split_digits.simps [of "l @ d @ rest"] d1 t1 t2 d2 del: takeWhile.simps dropWhile.simps)
qed

lemma parseInt10_digits: "\<forall>c\<in>set d. is_digit c \<Longrightarrow> parseInt10 d = round_double (decimal d)"
proof -
  assume "\<forall>c\<in>set d. is_digit c"
  then have e: "takeWhile is_digit d = d" by simp
  show ?thesis unfolding parseInt10_def e by (rule refl)
qed

lemma digit_range: "is_digit c \<Longrightarrow> 48 \<le> (of_char c :: nat) \<and> (of_char c :: nat) \<le> 57"
  unfolding is_digit_def
  apply (simp only: list.set insert_iff empty_iff)
  apply (elim disjE)
  apply simp_all
  done

lemma decimal_snoc: "decimal (ds @ [c]) = decimal ds * 10 + (int (of_char c) - 48)"
  by (simp add: decimal_def)

lemma decimal_bounds:
  "\<forall>c\<in>set ds. is_digit c \<Longrightarrow> 0 \<le> decimal ds \<and> decimal ds < 10 ^ length ds"
proof (induction ds rule: rev_induct)
  case Nil
  show ?case by (simp add: decimal_def)
next
  case (snoc c ds)
  have r: "0 \<le> int (of_char c) - 48" "int (of_char c) - 48 \<le> 9"
    using digit_range [of c] snoc.prems by auto
  have ih: "0 \<le> decimal ds" "decimal ds + 1 \<le> 10 ^ length ds"
    using snoc by auto
  have "(decimal ds + 1) * 10 \<le> 10 ^ length ds * 10"
    using ih(2) by (intro mult_right_mono) auto
  then show ?case
    using r ih(1) by (simp add: decimal_snoc algebra_simps)
qed

lemma decimal_short:
  assumes "\<forall>c\<in>set ds. is_digit c" "length ds \<le> 15"
  shows "decimal ds < 2 ^ 53"
proof -
  have "(10::int) ^ length ds \<le> 10 ^ 15"
    using assms(2) by (intro power_increasing) auto
  then have "(10::int) ^ length ds \<le> 1000000000000000" by simp
  then have "decimal ds < 1000000000000000"
    using decimal_bounds [OF assms(1)] by linarith
  then show ?thesis by simp
qed

lemma round_double_decimal:
  "\<forall>c\<in>set ds. is_digit c \<Longrightarrow> decimal ds < 2 ^ 53 \<Longrightarrow> round_double (decimal ds) = Finite (decimal ds)"
  using decimal_bounds [of ds] by (simp add: round_double_exact)

lemma getPosition_no_digit:
  "\<forall>c\<in>set s. \<not> is_digit c \<Longrightarrow> getPosition s = \<lparr>row = Finite 0, col = Finite 0\<rparr>"
  by (simp add: getPosition_def split_digits_none)

lemma getPosition_split:
  assumes "\<forall>c\<in>set l. \<not> is_digit c" "d \<noteq> []" "\<forall>c\<in>set d. is_digit c"
    "rest = [] \<or> \<not> is_digit (hd rest)"
  shows "getPosition (l @ d @ rest) = \<lparr>row = round_double (decimal d), col = numOfColumn l\<rparr>"
  using assms by (simp add: getPosition_def split_digits_first parseInt10_digits)

lemma upper_not_digit: "is_upper c \<Longrightarrow> \<not> is_digit c"
  using upper_range [of c] by (auto simp: is_digit_def)

text \<open>
  C2 (as amended). A text without any digit 0 to 9 (the empty text and every text of
  letters only among them) gives the sentinel position, row 0 and column 0. A text with a
  digit is split at its first run of digits: the row is the number that \<open>parseInt\<close> gives
  for that run, and the column is \<open>numOfColumn\<close> of the text before it, whatever follows
  the run. The row is the base-10 integer of the run when that integer is below
  \<open>2 ^ 53\<close>, as it is for every run of at most 15 digits, and otherwise the double nearest
  to it. For letters followed by digits this is the row of the digits and the column of
  the letters; a text of digits only gives the row of the digits and column 0, not the
  sentinel.
\<close>

theorem getPosition_cases:
  "((\<forall>c\<in>set s. \<not> is_digit c) \<longrightarrow> getPosition s = \<lparr>row = Finite 0, col = Finite 0\<rparr>)
   \<and> ((\<forall>c\<in>set l. \<not> is_digit c) \<and> d \<noteq> [] \<and> (\<forall>c\<in>set d. is_digit c)
        \<and> (rest = [] \<or> \<not> is_digit (hd rest))
      \<longrightarrow> getPosition (l @ d @ rest) = \<lparr>row = round_double (decimal d), col = numOfColumn l\<rparr>
        \<and> (decimal d < 2 ^ 53
            \<longrightarrow> getPosition (l @ d @ rest) = \<lparr>row = Finite (decimal d), col = numOfColumn l\<rparr>)
        \<and> (length d \<le> 15 \<longrightarrow> decimal d < 2 ^ 53))"
  using getPosition_no_digit [of s] getPosition_split [of l d rest]
    round_double_decimal [of d] decimal_short [of d]
  by auto

theorem getPosition_cases_witness:
  "list_all (\<lambda>c. \<not> is_digit c) ''AB'' \<and> list_all is_digit ''12'' \<and> length ''12'' \<le> 15
   \<and> getPosition ''AB'' = \<lparr>row = Finite 0, col = Finite 0\<rparr>
   \<and> getPosition ''AB12'' = \<lparr>row = Finite 12, col = Finite 28\<rparr>"
proof -
  have l: "\<forall>c\<in>set ''AB''. \<not> is_digit c" and d: "\<forall>c\<in>set ''12''. is_digit c"
    by (simp_all add: is_digit_def)
  have v: "decimal ''12'' = 12" "numOfColumn ''AB'' = Finite 28"
    by (simp_all add: decimal_def numOfColumn_digit_value trim_def is_space_def
        digit_value_def is_upper_def round_double_exact)
  have n: "''12'' \<noteq> []" "length ''12'' \<le> 15" "[] = [] \<or> \<not> is_digit (hd [])"
    by simp_all
  have "getPosition ''AB'' = \<lparr>row = Finite 0, col = Finite 0\<rparr>"
    using getPosition_cases [of "''AB''"] l by blast
  moreover have "getPosition (''AB'' @ ''12'' @ []) = \<lparr>row = Finite (decimal ''12''), col = numOfColumn ''AB''\<rparr>"
    using getPosition_cases [of _ "''AB''" "''12''" "[]"] l d n by blast
  ultimately show ?thesis
    using l d v by (simp add: list_all_iff)
qed

text \<open>A text of digits only does not give the sentinel: its digits are the row.\<close>

theorem getPosition_digits_only_counterexample:
  "getPosition ''123'' = \<lparr>row = Finite 123, col = Finite 0\<rparr>
   \<and> getPosition ''123'' \<noteq> \<lparr>row = Finite 0, col = Finite 0\<rparr>"
  by (simp add: getPosition_def split_digits.simps is_digit_def parseInt10_def decimal_def
      numOfColumn_def trim_def round_double_exact)

text \<open>A run of digits that denotes an integer from \<open>2 ^ 53\<close> on is rounded to a double.\<close>

lemma getPosition_rounds_row:
  "getPosition ''A9007199254740993'' = \<lparr>row = Finite 9007199254740992, col = Finite 1\<rparr>"
proof -
  have d: "\<forall>c\<in>set ''9007199254740993''. is_digit c" "\<forall>c\<in>set ''A''. \<not> is_digit c"
    by (simp_all add: is_digit_def)
  have v: "decimal ''9007199254740993'' = 9007199254740993"
    by (simp add: decimal_def)
  have r: "round_double 9007199254740993 = Finite 9007199254740992"
    by (simp add: round_double_def bit_length.simps Let_def)
  have c: "numOfColumn ''A'' = Finite 1"
    by (simp add: numOfColumn_digit_value trim_def is_space_def digit_value_def is_upper_def
        round_double_exact)
  show ?thesis
    using getPosition_split [of "''A''" "''9007199254740993''" "[]"] d
    by (simp add: v r c)
qed

text \<open>
  C8. For a reference made of one or more letters A to Z immediately followed by one or
  more digits, the column of \<open>getPosition\<close> of the whole reference is \<open>numOfColumn\<close> of
  the letters.
\<close>

theorem getPosition_col_numOfColumn:
  "l \<noteq> [] \<Longrightarrow> \<forall>c\<in>set l. is_upper c \<Longrightarrow> d \<noteq> [] \<Longrightarrow> \<forall>c\<in>set d. is_digit c \<Longrightarrow>
   col (getPosition (l @ d)) = numOfColumn l"
  using getPosition_split [of l d "[]"] by (simp add: upper_not_digit)

theorem getPosition_col_numOfColumn_witness:
  "list_all is_upper ''AB'' \<and> list_all is_digit ''1024''
   \<and> col (getPosition ''AB1024'') = numOfColumn ''AB'' \<and> numOfColumn ''AB'' = Finite 28"
proof -
  have l: "\<forall>c\<in>set ''AB''. is_upper c" and d: "\<forall>c\<in>set ''1024''. is_digit c"
    by (simp_all add: is_upper_def is_digit_def)
  have v: "numOfColumn ''AB'' = Finite 28"
    by (simp add: numOfColumn_digit_value trim_def is_space_def digit_value_def is_upper_def
        round_double_exact)
  have "col (getPosition (''AB'' @ ''1024'')) = numOfColumn ''AB''"
    using l d by (intro getPosition_col_numOfColumn) simp_all
  then show ?thesis
    using l d v by (simp add: list_all_iff)
qed

subsection \<open>Sheet sizes\<close>

lemma split_on_none: "sep \<notin> set p \<Longrightarrow> split_on sep p = [p]"
proof -
  assume "sep \<notin> set p"
  then have e: "dropWhile (\<lambda>c. c \<noteq> sep) p = []" by auto
  show ?thesis by (simp add: split_on.simps [of sep p] e)
qed

lemma split_on_first: "sep \<notin> set p \<Longrightarrow> split_on sep (p @ sep # rest) = p # split_on sep rest"
proof -
  assume a: "sep \<notin> set p"
  then have n: "\<forall>c\<in>set p. c \<noteq> sep" by auto
  have e: "dropWhile (\<lambda>c. c \<noteq> sep) (p @ sep # rest) = sep # rest"
    using n by simp
  have t: "takeWhile (\<lambda>c. c \<noteq> sep) (p @ sep # rest) = p"
    using n by simp
  show ?thesis by (simp add: split_on.simps [of sep "p @ sep # rest"] e t)
qed

lemma split_on_pair: "sep \<notin> set p \<Longrightarrow> sep \<notin> set q \<Longrightarrow> split_on sep (p @ sep # q) = [p, q]"
  by (simp add: split_on_first split_on_none)

lemma sorted_first_Min:
  fixes ys :: "'a::linorder list"
  assumes "sorted ys" "ys \<noteq> []"
  shows "ys ! 0 = Min (set ys)"
proof -
  obtain y ys' where e: "ys = y # ys'" using assms(2) by (cases ys) auto
  have "Min (set ys) = y"
    using assms(1) unfolding e by (intro Min_eqI) auto
  then show ?thesis by (simp add: e)
qed

lemma sorted_last_Max:
  fixes ys :: "'a::linorder list"
  assumes "sorted ys" "ys \<noteq> []"
  shows "ys ! (length ys - 1) = Max (set ys)"
proof -
  have "Max (set ys) = ys ! (length ys - 1)"
  proof (rule Max_eqI)
    show "finite (set ys)" by simp
    show "ys ! (length ys - 1) \<in> set ys" using assms(2) by simp
    fix y assume "y \<in> set ys"
    then obtain i where "i < length ys" "ys ! i = y" by (auto simp: in_set_conv_nth)
    then show "y \<le> ys ! (length ys - 1)"
      using sorted_nth_mono [OF assms(1), of i "length ys - 1"] by auto
  qed
  then show ?thesis by simp
qed

lemma at_index_sort:
  fixes xs :: "'a::linorder list"
  assumes "xs \<noteq> []"
  shows "at_index (sort xs) 0 = Some (Min (set xs))"
    and "at_index (sort xs) (int (length (sort xs)) - 1) = Some (Max (set xs))"
proof -
  have n: "sort xs \<noteq> []" using assms by (metis length_sort length_0_conv)
  have l: "0 < length xs" using assms by simp
  show "at_index (sort xs) 0 = Some (Min (set xs))"
    using sorted_first_Min [of "sort xs"] n l by (simp add: at_index_def)
  have "nat (int (length xs) - 1) = length xs - 1" by simp
  then show "at_index (sort xs) (int (length (sort xs)) - 1) = Some (Max (set xs))"
    using sorted_last_Max [of "sort xs"] n l by (simp add: at_index_def)
qed

lemma scan_cells_Min_Max:
  "cells \<noteq> [] \<Longrightarrow>
   scan_cells cells =
     \<lparr>size_row = \<lparr>range_min = Some (Min (cell_row ` set cells)), range_max = Some (Max (cell_row ` set cells))\<rparr>,
      size_col = \<lparr>range_min = Some (Min (cell_col ` set cells)), range_max = Some (Max (cell_col ` set cells))\<rparr>\<rparr>"
  using at_index_sort [of "map cell_row cells"] at_index_sort [of "map cell_col cells"]
  by (simp add: scan_cells_def Let_def)

lemma getSheetSize_no_dimension: "sheet_dimension sheet = None \<Longrightarrow> getSheetSize sheet cells = Inr (scan_cells cells)"
  by (simp add: getSheetSize_def)

lemma getSheetSize_ref:
  "sheet_dimension sheet = Some (dn # dns) \<Longrightarrow> dimension_dollar dn = Some a \<Longrightarrow> attr_ref a = Some ref \<Longrightarrow>
   getSheetSize sheet cells =
     (let range = split_on CHR '':'' ref in
      if length range = 2 then
        Inr \<lparr>size_row = \<lparr>range_min = Some (row (getPosition (range ! 0))), range_max = Some (row (getPosition (range ! 1)))\<rparr>,
             size_col = \<lparr>range_min = Some (col (getPosition (range ! 0))), range_max = Some (col (getPosition (range ! 1)))\<rparr>\<rparr>
      else Inr (scan_cells cells))"
  by (simp add: getSheetSize_def Let_def)


text \<open>
  C3. When the sheet has a dimension node whose reference is two endpoints joined by one
  colon, \<open>getSheetSize\<close> returns the box of the two endpoints as \<open>getPosition\<close> parses
  them, whatever the cells are: they are not scanned. With the reference \<open>B2:D4\<close> the
  result is rows 2 to 4 and columns 2 to 4 for every \<open>cells\<close>.
\<close>

theorem getSheetSize_dimension:
  "(sheet_dimension sheet = Some (dn # dns) \<and> dimension_dollar dn = Some a
      \<and> attr_ref a = Some (p @ '':'' @ q) \<and> CHR '':'' \<notin> set p \<and> CHR '':'' \<notin> set q
    \<longrightarrow> getSheetSize sheet cells =
          Inr \<lparr>size_row = \<lparr>range_min = Some (row (getPosition p)), range_max = Some (row (getPosition q))\<rparr>,
               size_col = \<lparr>range_min = Some (col (getPosition p)), range_max = Some (col (getPosition q))\<rparr>\<rparr>)
   \<and> getSheetSize
         (Some \<lparr>worksheet = Some \<lparr>dimension = Some [\<lparr>dimension_dollar = Some \<lparr>attr_ref = Some ''B2:D4''\<rparr>\<rparr>]\<rparr>\<rparr>)
         cells' =
       Inr \<lparr>size_row = \<lparr>range_min = Some (Finite 2), range_max = Some (Finite 4)\<rparr>,
            size_col = \<lparr>range_min = Some (Finite 2), range_max = Some (Finite 4)\<rparr>\<rparr>"
proof -
  have general: "getSheetSize sh cs =
      Inr \<lparr>size_row = \<lparr>range_min = Some (row (getPosition p')), range_max = Some (row (getPosition q'))\<rparr>,
           size_col = \<lparr>range_min = Some (col (getPosition p')), range_max = Some (col (getPosition q'))\<rparr>\<rparr>"
    if "sheet_dimension sh = Some (n # ns)" "dimension_dollar n = Some b"
      "attr_ref b = Some (p' @ '':'' @ q')" "CHR '':'' \<notin> set p'" "CHR '':'' \<notin> set q'"
    for sh cs n ns b p' q'
    using that getSheetSize_ref [of sh n ns b "p' @ '':'' @ q'" cs]
    by (simp add: split_on_pair)
  have d: "sheet_dimension
      (Some \<lparr>worksheet = Some \<lparr>dimension = Some [\<lparr>dimension_dollar = Some \<lparr>attr_ref = Some ''B2:D4''\<rparr>\<rparr>]\<rparr>\<rparr>)
      = Some [\<lparr>dimension_dollar = Some \<lparr>attr_ref = Some ''B2:D4''\<rparr>\<rparr>]"
    by (simp add: sheet_dimension_def)
  have b2: "getPosition ''B2'' = \<lparr>row = Finite 2, col = Finite 2\<rparr>"
    using getPosition_split [of "''B''" "''2''" "[]"]
    by (simp add: is_digit_def decimal_def numOfColumn_digit_value trim_def is_space_def
        digit_value_def is_upper_def round_double_exact)
  have d4: "getPosition ''D4'' = \<lparr>row = Finite 4, col = Finite 4\<rparr>"
    using getPosition_split [of "''D''" "''4''" "[]"]
    by (simp add: is_digit_def decimal_def numOfColumn_digit_value trim_def is_space_def
        digit_value_def is_upper_def round_double_exact)
  have example: "getSheetSize
      (Some \<lparr>worksheet = Some \<lparr>dimension = Some [\<lparr>dimension_dollar = Some \<lparr>attr_ref = Some ''B2:D4''\<rparr>\<rparr>]\<rparr>\<rparr>)
      cells' =
      Inr \<lparr>size_row = \<lparr>range_min = Some (Finite 2), range_max = Some (Finite 4)\<rparr>,
           size_col = \<lparr>range_min = Some (Finite 2), range_max = Some (Finite 4)\<rparr>\<rparr>"
    using general [OF d, of "\<lparr>attr_ref = Some ''B2:D4''\<rparr>" "''B2''" "''D4''" cells']
    by (simp add: b2 d4)
  show ?thesis
    using general example by blast
qed

theorem getSheetSize_dimension_witness:
  "sheet_dimension (Some \<lparr>worksheet = Some \<lparr>dimension = Some [\<lparr>dimension_dollar = Some \<lparr>attr_ref = Some ''A1:C45''\<rparr>\<rparr>]\<rparr>\<rparr>)
     = Some [\<lparr>dimension_dollar = Some \<lparr>attr_ref = Some ''A1:C45''\<rparr>\<rparr>]
   \<and> CHR '':'' \<notin> set ''A1'' \<and> CHR '':'' \<notin> set ''C45''
   \<and> (\<forall>cells. getSheetSize
         (Some \<lparr>worksheet = Some \<lparr>dimension = Some [\<lparr>dimension_dollar = Some \<lparr>attr_ref = Some ''A1:C45''\<rparr>\<rparr>]\<rparr>\<rparr>)
         cells =
       Inr \<lparr>size_row = \<lparr>range_min = Some (row (getPosition ''A1'')), range_max = Some (row (getPosition ''C45''))\<rparr>,
            size_col = \<lparr>range_min = Some (col (getPosition ''A1'')), range_max = Some (col (getPosition ''C45''))\<rparr>\<rparr>)"
proof -
  have d: "sheet_dimension
      (Some \<lparr>worksheet = Some \<lparr>dimension = Some [\<lparr>dimension_dollar = Some \<lparr>attr_ref = Some ''A1:C45''\<rparr>\<rparr>]\<rparr>\<rparr>)
      = Some [\<lparr>dimension_dollar = Some \<lparr>attr_ref = Some ''A1:C45''\<rparr>\<rparr>]"
    by (simp add: sheet_dimension_def)
  have c: "CHR '':'' \<notin> set ''A1''" "CHR '':'' \<notin> set ''C45''"
    by simp_all
  have r: "attr_ref \<lparr>attr_ref = Some ''A1:C45''\<rparr> = Some (''A1'' @ '':'' @ ''C45'')"
    by simp
  have "getSheetSize
      (Some \<lparr>worksheet = Some \<lparr>dimension = Some [\<lparr>dimension_dollar = Some \<lparr>attr_ref = Some ''A1:C45''\<rparr>\<rparr>]\<rparr>\<rparr>)
      cells =
      Inr \<lparr>size_row = \<lparr>range_min = Some (row (getPosition ''A1'')), range_max = Some (row (getPosition ''C45''))\<rparr>,
           size_col = \<lparr>range_min = Some (col (getPosition ''A1'')), range_max = Some (col (getPosition ''C45''))\<rparr>\<rparr>"
    for cells
    using getSheetSize_dimension
      [of "Some \<lparr>worksheet = Some \<lparr>dimension = Some [\<lparr>dimension_dollar = Some \<lparr>attr_ref = Some ''A1:C45''\<rparr>\<rparr>]\<rparr>\<rparr>"
          "\<lparr>dimension_dollar = Some \<lparr>attr_ref = Some ''A1:C45''\<rparr>\<rparr>" "[]"
          "\<lparr>attr_ref = Some ''A1:C45''\<rparr>" "''A1''" "''C45''" cells]
      d c r
    by simp
  then show ?thesis
    using d c by blast
qed



text \<open>
  C10. When the sheet has a dimension node with a reference that \<open>split( ':' )\<close> does not
  cut into exactly two parts (a reference without a colon is one), \<open>getSheetSize\<close> does
  not fail and does not use the reference: it returns what the scan of the cells gives,
  the same as for a sheet without a dimension, which for at least one cell is the least
  and the greatest row and column.
\<close>

theorem getSheetSize_falls_through:
  "(sheet_dimension sheet = Some (dn # dns) \<and> dimension_dollar dn = Some a \<and> attr_ref a = Some ref
      \<and> length (split_on CHR '':'' ref) \<noteq> 2
    \<longrightarrow> getSheetSize sheet cells = Inr (scan_cells cells)
        \<and> getSheetSize sheet cells = getSheetSize None cells
        \<and> (cells \<noteq> [] \<longrightarrow> getSheetSize sheet cells =
              Inr \<lparr>size_row = \<lparr>range_min = Some (Min (cell_row ` set cells)), range_max = Some (Max (cell_row ` set cells))\<rparr>,
                   size_col = \<lparr>range_min = Some (Min (cell_col ` set cells)), range_max = Some (Max (cell_col ` set cells))\<rparr>\<rparr>))
   \<and> (CHR '':'' \<notin> set ref \<longrightarrow> length (split_on CHR '':'' ref) \<noteq> 2)"
proof -
  have n: "getSheetSize None cells = Inr (scan_cells cells)"
    by (simp add: getSheetSize_no_dimension sheet_dimension_def)
  have f: "getSheetSize sheet cells = Inr (scan_cells cells)"
    if "sheet_dimension sheet = Some (dn # dns)" "dimension_dollar dn = Some a" "attr_ref a = Some ref"
      "length (split_on CHR '':'' ref) \<noteq> 2"
    using that getSheetSize_ref [of sheet dn dns a ref cells] by (simp add: Let_def)
  have c: "length (split_on CHR '':'' ref) \<noteq> 2" if "CHR '':'' \<notin> set ref"
    using that by (simp add: split_on_none)
  show ?thesis
    using n f c scan_cells_Min_Max [of cells] by auto
qed

theorem getSheetSize_falls_through_witness:
  "sheet_dimension (Some \<lparr>worksheet = Some \<lparr>dimension = Some [\<lparr>dimension_dollar = Some \<lparr>attr_ref = Some ''B2''\<rparr>\<rparr>]\<rparr>\<rparr>)
     = Some [\<lparr>dimension_dollar = Some \<lparr>attr_ref = Some ''B2''\<rparr>\<rparr>]
   \<and> length (split_on CHR '':'' ''B2'') \<noteq> 2
   \<and> getSheetSize
        (Some \<lparr>worksheet = Some \<lparr>dimension = Some [\<lparr>dimension_dollar = Some \<lparr>attr_ref = Some ''B2''\<rparr>\<rparr>]\<rparr>\<rparr>)
        [\<lparr>cell_row = Finite 7, cell_col = Finite 2, cell_type = ''s'', cell_value = ''0''\<rparr>,
         \<lparr>cell_row = Finite 3, cell_col = Finite 9, cell_type = '''', cell_value = ''x''\<rparr>] =
       Inr \<lparr>size_row = \<lparr>range_min = Some (Finite 3), range_max = Some (Finite 7)\<rparr>,
            size_col = \<lparr>range_min = Some (Finite 2), range_max = Some (Finite 9)\<rparr>\<rparr>"
proof -
  have d: "sheet_dimension
      (Some \<lparr>worksheet = Some \<lparr>dimension = Some [\<lparr>dimension_dollar = Some \<lparr>attr_ref = Some ''B2''\<rparr>\<rparr>]\<rparr>\<rparr>)
      = Some [\<lparr>dimension_dollar = Some \<lparr>attr_ref = Some ''B2''\<rparr>\<rparr>]"
    by (simp add: sheet_dimension_def)
  have l: "length (split_on CHR '':'' ''B2'') \<noteq> 2"
    by (simp add: split_on_none)
  show ?thesis
    using getSheetSize_falls_through
      [of "Some \<lparr>worksheet = Some \<lparr>dimension = Some [\<lparr>dimension_dollar = Some \<lparr>attr_ref = Some ''B2''\<rparr>\<rparr>]\<rparr>\<rparr>"
          "\<lparr>dimension_dollar = Some \<lparr>attr_ref = Some ''B2''\<rparr>\<rparr>" "[]"
          "\<lparr>attr_ref = Some ''B2''\<rparr>" "''B2''"
          "[\<lparr>cell_row = Finite 7, cell_col = Finite 2, cell_type = ''s'', cell_value = ''0''\<rparr>,
            \<lparr>cell_row = Finite 3, cell_col = Finite 9, cell_type = '''', cell_value = ''x''\<rparr>]"]
      d l
    by auto
qed

text \<open>Two boundary cases of \<open>getSheetSize\<close>, outside of the properties above. The guard
  \<open>0 <= dimension.length\<close> lets an empty dimension array through, and reading its first
  node throws. Without a dimension and without cells nothing throws: all four bounds are
  \<open>undefined\<close>.\<close>

lemma getSheetSize_empty_dimension:
  "sheet_dimension sheet = Some [] \<Longrightarrow> getSheetSize sheet cells = Inl TypeError"
  by (simp add: getSheetSize_def)

lemma getSheetSize_no_cells:
  "sheet_dimension sheet = None \<Longrightarrow>
   getSheetSize sheet [] =
     Inr \<lparr>size_row = \<lparr>range_min = None, range_max = None\<rparr>,
          size_col = \<lparr>range_min = None, range_max = None\<rparr>\<rparr>"
  by (simp add: getSheetSize_def scan_cells_def at_index_def)

subsection \<open>Cells\<close>

lemma make_cell_ref:
  "cell_dollar c = Some a \<Longrightarrow> attr_r a = Some ref \<Longrightarrow>
   make_cell c =
     Inr \<lparr>cell_row = row (getPosition ref), cell_col = col (getPosition ref),
          cell_type = (case attr_t a of None \<Rightarrow> [] | Some ty \<Rightarrow> ty),
          cell_value = (case cell_v c of None \<Rightarrow> [] | Some [] \<Rightarrow> [] | Some (v # vs) \<Rightarrow> v)\<rparr>"
  by (auto simp: make_cell_def Let_def split: option.splits list.splits)

lemma has_ref_make_cell: "has_ref c \<Longrightarrow> \<exists>x. make_cell c = Inr x"
  by (auto simp: has_ref_def make_cell_def Let_def split: option.splits)

lemma cells_loop_ok:
  "\<forall>c\<in>set cs. has_ref c \<Longrightarrow>
   \<exists>xs. cells_loop cs acc = Inr (acc @ xs) \<and> map Inr xs = map make_cell cs"
proof (induction cs arbitrary: acc)
  case Nil
  show ?case by simp
next
  case (Cons c cs)
  obtain x where x: "make_cell c = Inr x"
    using has_ref_make_cell [of c] Cons.prems by auto
  obtain xs where xs: "cells_loop cs (acc @ [x]) = Inr ((acc @ [x]) @ xs)" "map Inr xs = map make_cell cs"
    using Cons.IH [of "acc @ [x]"] Cons.prems by auto
  have "cells_loop (c # cs) acc = Inr (acc @ x # xs)" using x xs(1) by simp
  moreover have "map Inr (x # xs) = map make_cell (c # cs)" using x xs(2) by simp
  ultimately show ?case by blast
qed

lemma rows_loop_ok:
  "\<forall>rw\<in>set rws. row_c rw \<noteq> None \<and> (\<forall>c\<in>set (row_cells rw). has_ref c) \<Longrightarrow>
   \<exists>xs. rows_loop rws acc = Inr (acc @ xs) \<and> map Inr xs = map make_cell (concat (map row_cells rws))"
proof (induction rws arbitrary: acc)
  case Nil
  show ?case by simp
next
  case (Cons rw rws)
  obtain cs where cs: "row_c rw = Some cs" using Cons.prems by auto
  then have rc: "row_cells rw = cs" by (simp add: row_cells_def)
  obtain xs where xs: "cells_loop cs acc = Inr (acc @ xs)" "map Inr xs = map make_cell cs"
    using cells_loop_ok [of cs acc] Cons.prems rc by auto
  obtain ys where ys: "rows_loop rws (acc @ xs) = Inr ((acc @ xs) @ ys)"
      "map Inr ys = map make_cell (concat (map row_cells rws))"
    using Cons.IH [of "acc @ xs"] Cons.prems by auto
  have "rows_loop (rw # rws) acc = Inr (acc @ xs @ ys)" using cs xs(1) ys(1) by simp
  moreover have "map Inr (xs @ ys) = map make_cell (concat (map row_cells (rw # rws)))"
    using rc xs(2) ys(2) by simp
  ultimately show ?case by blast
qed

lemma concat_row_cells_filter:
  "concat (map row_cells (filter (\<lambda>rw. case row_c rw of None \<Rightarrow> False | Some cs \<Rightarrow> 0 < length cs) rows))
   = concat (map row_cells rows)"
  by (induction rows) (auto simp: row_cells_def split: option.splits)

lemma getCells_ok:
  assumes "\<forall>rw\<in>set rows. \<forall>c\<in>set (row_cells rw). has_ref c"
  shows "\<exists>cells. getCells rows = Inr cells \<and> map Inr cells = map make_cell (concat (map row_cells rows))"
proof -
  let ?kept = "filter (\<lambda>rw. case row_c rw of None \<Rightarrow> False | Some cs \<Rightarrow> 0 < length cs) rows"
  have "\<forall>rw\<in>set ?kept. row_c rw \<noteq> None \<and> (\<forall>c\<in>set (row_cells rw). has_ref c)"
    using assms by (auto split: option.splits)
  then obtain xs where "rows_loop ?kept [] = Inr ([] @ xs)"
      "map Inr xs = map make_cell (concat (map row_cells ?kept))"
    using rows_loop_ok [of ?kept "[]"] by blast
  then show ?thesis
    by (simp add: getCells_def concat_row_cells_filter)
qed

lemma getCells_example:
  "getCells [\<lparr>row_c = Some [\<lparr>cell_dollar = Some \<lparr>attr_r = Some ''A1'', attr_t = None\<rparr>, cell_v = Some [''x'']\<rparr>]\<rparr>,
             \<lparr>row_c = Some []\<rparr>]
   = Inr [\<lparr>cell_row = Finite 1, cell_col = Finite 1, cell_type = [], cell_value = ''x''\<rparr>]"
proof -
  have "getPosition ''A1'' = \<lparr>row = Finite 1, col = Finite 1\<rparr>"
    using getPosition_split [of "''A''" "''1''" "[]"]
    by (simp add: is_digit_def decimal_def numOfColumn_digit_value trim_def is_space_def
        digit_value_def is_upper_def round_double_exact)
  then show ?thesis
    by (simp add: getCells_def make_cell_def)
qed

text \<open>
  C6. When every cell node carries a reference, \<open>getCells\<close> returns one cell for each
  cell node of the rows, in the order of the rows and of the cells within a row; rows
  without a cell sequence, or with an empty one, contribute nothing. The cell made from a
  cell node has the row and column that \<open>getPosition\<close> gives for its reference, the type
  attribute as its type (the empty string when absent) and the first value node as its
  value (the empty string when there is none). The rows of one cell A1 holding x, and of
  no cell, give the single cell at row 1 and column 1, with empty type and value x.
\<close>

theorem getCells_cells:
  "((\<forall>rw\<in>set rows. \<forall>c\<in>set (row_cells rw). has_ref c) \<longrightarrow>
      (\<exists>cells. getCells rows = Inr cells
         \<and> map Inr cells = map make_cell (concat (map row_cells rows))))
   \<and> (cell_dollar c = Some a \<and> attr_r a = Some ref \<longrightarrow>
        make_cell c =
          Inr \<lparr>cell_row = row (getPosition ref), cell_col = col (getPosition ref),
               cell_type = (case attr_t a of None \<Rightarrow> '''' | Some ty \<Rightarrow> ty),
               cell_value = (case cell_v c of None \<Rightarrow> '''' | Some [] \<Rightarrow> '''' | Some (v # vs) \<Rightarrow> v)\<rparr>)
   \<and> getCells
        [\<lparr>row_c = Some [\<lparr>cell_dollar = Some \<lparr>attr_r = Some ''A1'', attr_t = None\<rparr>, cell_v = Some [''x'']\<rparr>]\<rparr>,
         \<lparr>row_c = Some []\<rparr>]
       = Inr [\<lparr>cell_row = Finite 1, cell_col = Finite 1, cell_type = '''', cell_value = ''x''\<rparr>]"
  using getCells_ok [of rows] make_cell_ref [of c a ref] getCells_example by blast

theorem getCells_cells_witness:
  "list_all (\<lambda>rw. list_all has_ref (row_cells rw))
     [\<lparr>row_c = None\<rparr>,
      \<lparr>row_c = Some [\<lparr>cell_dollar = Some \<lparr>attr_r = Some ''AB12'', attr_t = Some ''s''\<rparr>, cell_v = Some [''7'']\<rparr>]\<rparr>]
   \<and> getCells
        [\<lparr>row_c = None\<rparr>,
         \<lparr>row_c = Some [\<lparr>cell_dollar = Some \<lparr>attr_r = Some ''AB12'', attr_t = Some ''s''\<rparr>, cell_v = Some [''7'']\<rparr>]\<rparr>]
       = Inr [\<lparr>cell_row = Finite 12, cell_col = Finite 28, cell_type = ''s'', cell_value = ''7''\<rparr>]"
proof -
  define c1 where "c1 = \<lparr>cell_dollar = Some \<lparr>attr_r = Some ''AB12'', attr_t = Some ''s''\<rparr>, cell_v = Some [''7'']\<rparr>"
  define rows0 where "rows0 = [\<lparr>row_c = None\<rparr>, \<lparr>row_c = Some [c1]\<rparr>]"
  have h: "\<forall>rw\<in>set rows0. \<forall>c\<in>set (row_cells rw). has_ref c"
    by (simp add: rows0_def c1_def row_cells_def has_ref_def)
  have p: "getPosition ''AB12'' = \<lparr>row = Finite 12, col = Finite 28\<rparr>"
    using getPosition_split [of "''AB''" "''12''" "[]"]
    by (simp add: is_digit_def decimal_def numOfColumn_digit_value trim_def is_space_def
        digit_value_def is_upper_def round_double_exact)
  obtain cells where c: "getCells rows0 = Inr cells"
      "map Inr cells = map make_cell (concat (map row_cells rows0))"
    using getCells_cells [of rows0] h by blast
  have m: "make_cell c1 = Inr \<lparr>cell_row = Finite 12, cell_col = Finite 28, cell_type = ''s'', cell_value = ''7''\<rparr>"
    using getCells_cells [of _ c1 "\<lparr>attr_r = Some ''AB12'', attr_t = Some ''s''\<rparr>" "''AB12''"] p
    by (simp add: c1_def)
  have "cells = [\<lparr>cell_row = Finite 12, cell_col = Finite 28, cell_type = ''s'', cell_value = ''7''\<rparr>]"
    using c(2) m by (auto simp: rows0_def row_cells_def)
  then show ?thesis
    using c(1) h unfolding rows0_def c1_def by (simp add: list_all_iff)
qed

text \<open>Outside of the property above: a cell node without an attribute object, or
  without the attribute \<open>r\<close>, makes \<open>getCells\<close> throw.\<close>

lemma getCells_without_ref:
  "getCells [\<lparr>row_c = Some [\<lparr>cell_dollar = None, cell_v = Some [''1'']\<rparr>]\<rparr>] = Inl TypeError
   \<and> getCells [\<lparr>row_c = Some [\<lparr>cell_dollar = Some \<lparr>attr_r = None, attr_t = Some ''s''\<rparr>,
                                  cell_v = Some [''1'']\<rparr>]\<rparr>] = Inl TypeError"
  by (simp add: getCells_def make_cell_def)

subsection \<open>Rich text\<close>

lemma parseT_loop_concat:
  "parseT_loop ts val =
   val @ concat (map (\<lambda>n. case n of TString s \<Rightarrow> s | TObject None \<Rightarrow> [] | TObject (Some s) \<Rightarrow> s | TOther \<Rightarrow> []) ts)"
  by (induction ts val rule: parseT_loop.induct) (auto split: option.splits)

lemma parseR_loop_concat:
  "parseR_loop rs val = val @ concat (map (\<lambda>obj. case run_t obj of None \<Rightarrow> [] | Some ts \<Rightarrow> parseT ts) rs)"
  by (induction rs arbitrary: val) (auto split: option.splits)

lemma parseR_example: "parseR [\<lparr>run_t = Some [TString ''Hello '']\<rparr>, \<lparr>run_t = Some [TObject (Some '' World'')]\<rparr>] = ''Hello  World''"
  by (simp add: parseR_def parseT_def)

text \<open>
  C7. \<open>parseT\<close> is the concatenation, in the order of the nodes, of what each text node
  contributes: a string contributes itself, an object contributes the string of its
  underscore property, and any other node contributes nothing; nothing is trimmed or
  collapsed. \<open>parseR\<close> is the concatenation of \<open>parseT\<close> of the text nodes of each run, a
  run without text nodes contributing nothing. A plain run \<open>Hello \<close> followed by a run
  with the preserved text \<open> World\<close> gives \<open>Hello  World\<close>, with both spaces.
\<close>

theorem parseT_parseR_concat:
  "parseT ts =
     concat (map (\<lambda>n. case n of TString s \<Rightarrow> s | TObject None \<Rightarrow> '''' | TObject (Some s) \<Rightarrow> s
                        | TOther \<Rightarrow> '''') ts)
   \<and> parseR rs = concat (map (\<lambda>obj. case run_t obj of None \<Rightarrow> '''' | Some ts' \<Rightarrow> parseT ts') rs)
   \<and> parseR [\<lparr>run_t = Some [TString ''Hello '']\<rparr>, \<lparr>run_t = Some [TObject (Some '' World'')]\<rparr>]
       = ''Hello  World''"
  using parseT_loop_concat [of ts "[]"] parseR_loop_concat [of rs "[]"] parseR_example
  by (simp add: parseT_def parseR_def)

subsection \<open>Empty grids\<close>






end
